theory Spec2Isabelle
  imports Main "HOL-Library.Sublist"
begin

section \<open>Values exchanged with the external collaborators\<close>

text \<open>
  The assistant of \<^verbatim>\<open>agent.py\<close> talks to three external services: a language model
  (\<^verbatim>\<open>llm\<close>), a vector store behind \<^verbatim>\<open>retriever\<close> and the weather service reached with
  \<^verbatim>\<open>requests.get\<close>. They are parameters of the model (the record \<open>env\<close> below); every
  call a node makes is appended to a trace, so that the number and the order of the calls
  can be stated. The \<^verbatim>\<open>print\<close> statements of the nodes are not modelled.

  Strings are \<^typ>\<open>string\<close>; \<^verbatim>\<open>str.strip\<close> and \<^verbatim>\<open>str.lower\<close> are modelled on ASCII
  (characters outside ASCII are neither whitespace nor changed by \<open>lower\<close>).
\<close>

text \<open>
  A parsed JSON document, as \<^verbatim>\<open>response.json()\<close> returns it: \<^verbatim>\<open>None\<close>, a bool, an int,
  a float (\<open>JFloat m e\<close> stands for the finite value \<open>m * 2 ^ e\<close>), a string, a list or a
  dict with string keys, in insertion order.
\<close>

datatype json =
    JNull
  | JBool bool
  | JInt int
  | JFloat int int
  | JStr string
  | JArr "json list"
  | JObj "(string \<times> json) list"

text \<open>Python's truth value of such a value (\<^verbatim>\<open>if weather_data:\<close>).\<close>

fun truthy :: "json \<Rightarrow> bool" where
  "truthy JNull = False"
| "truthy (JBool b) = b"
| "truthy (JInt i) = (i \<noteq> 0)"
| "truthy (JFloat m e) = (m \<noteq> 0)"
| "truthy (JStr s) = (s \<noteq> [])"
| "truthy (JArr xs) = (xs \<noteq> [])"
| "truthy (JObj kvs) = (kvs \<noteq> [])"


text \<open>
  The exceptions that leave a node and abort the turn: a failing call of the language
  model or of the vector store, a missing key, a read of an attribute of \<^verbatim>\<open>None\<close>, and any
  other exception that no handler of the code catches.
\<close>

datatype error =
    LLMError string
  | RetrieverError string
  | KeyError string
  | AttributeError string
  | OtherException string

text \<open>\<^verbatim>\<open>class WeatherInput(BaseModel): city: str\<close>\<close>

record WeatherInput =
  city :: string

text \<open>
  A chunk returned by the vector store (a LangChain \<^verbatim>\<open>Document\<close>): its text and the
  metadata written by \<^verbatim>\<open>INGEST.py\<close> (\<^verbatim>\<open>service_name\<close>, \<^verbatim>\<open>service_id\<close>, \<^verbatim>\<open>section\<close>,
  \<^verbatim>\<open>page\<close>).
\<close>

record Document =
  page_content :: string
  metadata :: "(string \<times> json) list"

text \<open>
  What \<^verbatim>\<open>response.json()\<close> does with the body of a response: it returns the parsed body;
  or it raises a \<^verbatim>\<open>JSONDecodeError\<close> that is a \<^verbatim>\<open>RequestException\<close> (requests 2.27 and
  later, for a body that is not JSON); or it raises an exception of another class, which
  \<^verbatim>\<open>fetch_weather\<close> does not catch: \<^verbatim>\<open>RecursionError\<close> for a body that is nested too
  deeply, whether it is valid JSON or not, \<^verbatim>\<open>ValueError\<close> for a malformed body under an
  older requests. The string is \<^verbatim>\<open>str\<close> of the exception.
\<close>

datatype json_outcome =
    Parsed json
  | JSONDecodeError string
  | ParseRaised string

text \<open>
  The request \<^verbatim>\<open>requests.get(base_url, params=params)\<close> sends, and what comes back:
  either \<^verbatim>\<open>requests.get\<close> raises a \<^verbatim>\<open>RequestException\<close> (no connection, timeout; the
  string is \<^verbatim>\<open>str\<close> of the exception), or a response arrives, with its status code, the
  text \<^verbatim>\<open>raise_for_status\<close> puts into its \<^verbatim>\<open>HTTPError\<close>, and what \<^verbatim>\<open>response.json()\<close>
  does with its body.
\<close>

record request =
  url :: string
  params :: "(string \<times> string option) list"

record response =
  status_code :: nat
  http_error_text :: string
  json_body :: json_outcome

datatype http_outcome =
    RequestException string
  | Response response

text \<open>The states of the graph: its four nodes and \<^verbatim>\<open>END\<close>.\<close>

datatype node = Router | Rag_tool | Weather_tool | Responder | END

text \<open>What a turn does, in order: the graph states it enters and the calls it makes.\<close>

datatype event =
    Visit node
  | LlmInvoke string
  | StructuredInvoke string
  | RetrieverInvoke string nat
  | HttpGet request

text \<open>
  \<open>environ\<close> is \<^verbatim>\<open>os.getenv\<close>; \<open>llm_invoke\<close> is \<^verbatim>\<open>llm.invoke(prompt).content\<close>;
  \<open>structured_invoke\<close> is \<^verbatim>\<open>llm.with_structured_output(WeatherInput).invoke\<close>, which
  returns a \<^verbatim>\<open>WeatherInput\<close> or, when the model gives nothing to parse, \<^verbatim>\<open>None\<close>;
  \<open>similarity_search\<close> is the vector store's search for a query and a number of results;
  \<open>requests_get\<close> is the weather service behind \<^verbatim>\<open>requests.get\<close>; \<open>py_str\<close> is Python's
  \<^verbatim>\<open>str\<close> of a payload, as an f-string formats it. A call that raises returns \<open>Inl\<close>.
\<close>

record env =
  environ :: "string \<Rightarrow> string option"
  py_str :: "json \<Rightarrow> string"
  llm_invoke :: "string \<Rightarrow> error + string"
  structured_invoke :: "string \<Rightarrow> error + WeatherInput option"
  similarity_search :: "string \<Rightarrow> nat \<Rightarrow> error + Document list"
  requests_get :: "request \<Rightarrow> http_outcome"

section \<open>The state of the graph\<close>

text \<open>
  \<^verbatim>\<open>class AgentState(TypedDict)\<close>. The callers (\<^verbatim>\<open>main.py\<close> and the test block of
  \<^verbatim>\<open>agent.py\<close>) supply \<^verbatim>\<open>query\<close> and \<^verbatim>\<open>messages\<close> only, and the nodes read the other keys
  with \<^verbatim>\<open>state.get\<close>: a key that is not set is \<open>None\<close>. A message is its type and its
  content.
\<close>

record AgentState =
  query :: string
  messages :: "(string \<times> string) list"
  response :: "string option"
  sender :: "string option"
  documents :: "string list option"
  weather_data :: "json option"
  route :: "string option"

text \<open>
  A node returns a dict holding the keys it writes; the graph overwrites these keys of
  the state (no node returns \<^verbatim>\<open>messages\<close>, the only key with a reducer).
\<close>

record update =
  upd_response :: "string option"
  upd_sender :: "string option"
  upd_documents :: "string list option"
  upd_weather_data :: "json option"
  upd_route :: "string option"

definition no_update :: update where
  "no_update = \<lparr>upd_response = None, upd_sender = None, upd_documents = None,
     upd_weather_data = None, upd_route = None\<rparr>"

definition overwrite :: "'a option \<Rightarrow> 'a option \<Rightarrow> 'a option" where
  "overwrite old new = (case new of None \<Rightarrow> old | Some v \<Rightarrow> Some v)"

definition apply_update :: "AgentState \<Rightarrow> update \<Rightarrow> AgentState" where
  "apply_update s u =
     s\<lparr>response := overwrite (response s) (upd_response u),
       sender := overwrite (sender s) (upd_sender u),
       documents := overwrite (documents s) (upd_documents u),
       weather_data := overwrite (weather_data s) (upd_weather_data u),
       route := overwrite (route s) (upd_route u)\<rparr>"

section \<open>String helpers\<close>

text \<open>\<^verbatim>\<open>str.isspace\<close> on an ASCII character: tab to carriage return, FS to US, space.\<close>

definition isspace :: "char \<Rightarrow> bool" where
  "isspace c = (let n = (of_char c :: nat) in (9 \<le> n \<and> n \<le> 13) \<or> (28 \<le> n \<and> n \<le> 32))"

definition strip :: "string \<Rightarrow> string" where
  "strip s = rev (dropWhile isspace (rev (dropWhile isspace s)))"

definition lower_char :: "char \<Rightarrow> char" where
  "lower_char c = (let n = (of_char c :: nat) in
     if 65 \<le> n \<and> n \<le> 90 then char_of (n + 32) else c)"

definition lower :: "string \<Rightarrow> string" where
  "lower s = map lower_char s"

text \<open>\<^verbatim>\<open>needle in hay\<close> on strings: the needle starts at some position of the hay.\<close>

fun starts_with :: "string \<Rightarrow> string \<Rightarrow> bool" where
  "starts_with [] hay = True"
| "starts_with (c # cs) [] = False"
| "starts_with (c # cs) (h # hs) = (c = h \<and> starts_with cs hs)"

fun contains :: "string \<Rightarrow> string \<Rightarrow> bool" where
  "contains needle [] = (needle = [])"
| "contains needle (h # hs) = (starts_with needle (h # hs) \<or> contains needle hs)"

text \<open>\<^verbatim>\<open>sep.join(xs)\<close>\<close>

fun join :: "string \<Rightarrow> string list \<Rightarrow> string" where
  "join sep [] = []"
| "join sep [x] = x"
| "join sep (x # y # ys) = x @ sep @ join sep (y # ys)"

section \<open>The router\<close>

text \<open>The characters an Isabelle string literal cannot hold.\<close>

definition nl :: string where "nl = [CHR 0x0A]"
definition sq :: string where "sq = [CHR 0x27]"
definition dq :: string where "dq = [CHR 0x22]"

definition router_prompt :: "string \<Rightarrow> string" where
  "router_prompt q =
     ''Given the user query, should I use the '' @ sq @ ''weather_tool'' @ sq
     @ '' for real-time weather information '' @ nl
     @ ''    or the '' @ sq @ ''rag_tool'' @ sq
     @ '' for answering questions based on the provided ISO 14229-1 document?'' @ nl
     @ nl
     @ ''    User Query: '' @ dq @ q @ dq @ nl
     @ nl
     @ ''    Respond with only '' @ sq @ ''weather'' @ sq @ '' or '' @ sq @ ''rag'' @ sq @ ''.'' @ nl
     @ ''    ''"

definition router_node :: "env \<Rightarrow> AgentState \<Rightarrow> event list \<Rightarrow> (error + update) \<times> event list" where
  "router_node e state tr =
     (let prompt = router_prompt (query state);
          tr' = tr @ [LlmInvoke prompt]
      in case llm_invoke e prompt of
           Inl err \<Rightarrow> (Inl err, tr')
         | Inr content \<Rightarrow>
             (let decision = lower (strip content)
              in if contains ''weather'' decision
                 then (Inr (no_update\<lparr>upd_route := Some ''weather''\<rparr>), tr')
                 else (Inr (no_update\<lparr>upd_route := Some ''rag''\<rparr>), tr')))"

section \<open>The weather tool\<close>

text \<open>
  \<^verbatim>\<open>response.raise_for_status()\<close> raises an \<^verbatim>\<open>HTTPError\<close> for a status from 400 to 599.
\<close>

definition raises_for_status :: "response \<Rightarrow> bool" where
  "raises_for_status r = (400 \<le> status_code r \<and> status_code r < 600)"

definition error_payload :: "string \<Rightarrow> json" where
  "error_payload msg = JObj [(''error'', JStr msg)]"

text \<open>The one request of \<^verbatim>\<open>fetch_weather\<close>: the city, the API key and metric units.\<close>

definition weather_request :: "env \<Rightarrow> string \<Rightarrow> request" where
  "weather_request e c =
     \<lparr>url = ''http://api.openweathermap.org/data/2.5/weather'',
      params = [(''q'', Some c),
                (''appid'', environ e ''OPENWEATHERMAP_API_KEY''),
                (''units'', Some ''metric'')]\<rparr>"

text \<open>
  The handlers of \<^verbatim>\<open>fetch_weather\<close> catch \<^verbatim>\<open>HTTPError\<close> and \<^verbatim>\<open>RequestException\<close> only:
  any other exception of \<^verbatim>\<open>response.json()\<close> leaves the function.
\<close>

definition fetch_weather :: "env \<Rightarrow> string \<Rightarrow> event list \<Rightarrow> (error + json) \<times> event list" where
  "fetch_weather e c tr =
     (let req = weather_request e c;
          tr' = tr @ [HttpGet req]
      in case requests_get e req of
           RequestException req_err \<Rightarrow>
             (Inr (error_payload (''An error occurred: '' @ req_err)), tr')
         | Response r \<Rightarrow>
             if raises_for_status r
             then (if status_code r = 404
                   then (Inr (error_payload (''City '' @ sq @ c @ sq @ '' not found.'')), tr')
                   else (Inr (error_payload (''HTTP error occurred: '' @ http_error_text r)), tr'))
             else (case json_body r of
                     Parsed payload \<Rightarrow> (Inr payload, tr')
                   | JSONDecodeError req_err \<Rightarrow>
                       (Inr (error_payload (''An error occurred: '' @ req_err)), tr')
                   | ParseRaised exc \<Rightarrow> (Inl (OtherException exc), tr')))"

text \<open>
  \<^verbatim>\<open>result.city\<close> on a result that is \<^verbatim>\<open>None\<close> raises this \<^verbatim>\<open>AttributeError\<close>.
\<close>

definition none_has_no_city :: error where
  "none_has_no_city =
     AttributeError (sq @ ''NoneType'' @ sq @ '' object has no attribute '' @ sq @ ''city'' @ sq)"

definition weather_node :: "env \<Rightarrow> AgentState \<Rightarrow> event list \<Rightarrow> (error + update) \<times> event list" where
  "weather_node e state tr =
     (let q = query state;
          tr1 = tr @ [StructuredInvoke q]
      in case structured_invoke e q of
           Inl err \<Rightarrow> (Inl err, tr1)
         | Inr None \<Rightarrow> (Inl none_has_no_city, tr1)
         | Inr (Some result) \<Rightarrow>
             if city result = []
             then (Inr (no_update\<lparr>
                     upd_weather_data :=
                       Some (error_payload ''Could not identify a city in the query.''),
                     upd_sender := Some ''Weather Tool''\<rparr>), tr1)
             else (case fetch_weather e (city result) tr1 of
                     (Inl err, tr2) \<Rightarrow> (Inl err, tr2)
                   | (Inr weather_info, tr2) \<Rightarrow>
                       (Inr (no_update\<lparr>upd_weather_data := Some weather_info,
                                            upd_sender := Some ''Weather Tool''\<rparr>), tr2)))"

section \<open>The retrieval tool\<close>

text \<open>
  \<^verbatim>\<open>qdrant_store.as_retriever(search_type="similarity", search_kwargs={"k": 5})\<close>
\<close>

definition retriever :: "env \<Rightarrow> string \<Rightarrow> event list \<Rightarrow> (error + Document list) \<times> event list" where
  "retriever e q tr = (similarity_search e q 5, tr @ [RetrieverInvoke q 5])"

definition rag_node :: "env \<Rightarrow> AgentState \<Rightarrow> event list \<Rightarrow> (error + update) \<times> event list" where
  "rag_node e state tr =
     (let q = query state;
          (res, tr') = retriever e q tr
      in case res of
           Inl err \<Rightarrow> (Inl err, tr')
         | Inr docs \<Rightarrow>
             (let documents_content = map page_content docs
              in (Inr (no_update\<lparr>upd_documents := Some documents_content,
                                   upd_sender := Some ''RAG Tool''\<rparr>), tr')))"

section \<open>The responder\<close>

definition rag_answer_prompt :: "string \<Rightarrow> string \<Rightarrow> string" where
  "rag_answer_prompt context q =
     ''Based on the following context from the ISO 14229-1 document, '' @ nl
     @ ''        provide a concise answer to the user'' @ sq @ ''s question.'' @ nl
     @ nl
     @ ''        Context:'' @ nl
     @ ''        '' @ context @ nl
     @ nl
     @ ''        Question:'' @ nl
     @ ''        '' @ q @ nl
     @ ''        ''"

definition weather_answer_prompt :: "string \<Rightarrow> string \<Rightarrow> string" where
  "weather_answer_prompt q weather_text =
     ''The user asked: '' @ dq @ q @ dq @ nl
     @ ''        Here is the real-time weather data: '' @ weather_text @ ''.'' @ nl
     @ ''        '' @ nl
     @ ''        Generate a friendly, conversational response summarizing this weather information.'' @ nl
     @ ''        If there is an error in the data, state it clearly.'' @ nl
     @ ''        ''"

definition fallback_response :: string where
  "fallback_response =
     ''I'' @ sq @ ''m sor'' @ ''ry, I couldn'' @ sq @ ''t process that request.''"

text \<open>
  \<^verbatim>\<open>if documents:\<close> holds for a list that is set and not empty, \<^verbatim>\<open>elif weather_data:\<close>
  for a payload that is set and whose truth value is True.
\<close>

definition documents_truthy :: "string list option \<Rightarrow> bool" where
  "documents_truthy d = (case d of None \<Rightarrow> False | Some ds \<Rightarrow> ds \<noteq> [])"

definition weather_truthy :: "json option \<Rightarrow> bool" where
  "weather_truthy w = (case w of None \<Rightarrow> False | Some j \<Rightarrow> truthy j)"

definition agent_reply :: "string \<Rightarrow> update" where
  "agent_reply content = no_update\<lparr>upd_response := Some content, upd_sender := Some ''Agent''\<rparr>"

text \<open>\<^verbatim>\<open>response = llm.invoke(prompt); return {"response": response.content, "sender": "Agent"}\<close>\<close>

definition llm_response :: "env \<Rightarrow> string \<Rightarrow> event list \<Rightarrow> (error + update) \<times> event list" where
  "llm_response e prompt tr =
     (case llm_invoke e prompt of
        Inl err \<Rightarrow> (Inl err, tr @ [LlmInvoke prompt])
      | Inr content \<Rightarrow> (Inr (agent_reply content), tr @ [LlmInvoke prompt]))"

definition response_generator_node ::
  "env \<Rightarrow> AgentState \<Rightarrow> event list \<Rightarrow> (error + update) \<times> event list" where
  "response_generator_node e state tr =
     (let q = query state
      in if documents_truthy (documents state)
         then (let context = join (nl @ nl) (case documents state of None \<Rightarrow> [] | Some ds \<Rightarrow> ds)
               in llm_response e (rag_answer_prompt context q) tr)
         else if weather_truthy (weather_data state)
         then (let weather_text = (case weather_data state of None \<Rightarrow> ''None'' | Some j \<Rightarrow> py_str e j)
               in llm_response e (weather_answer_prompt q weather_text) tr)
         else (Inr (agent_reply fallback_response), tr))"

section \<open>The graph\<close>

text \<open>
  The conditional edges of \<^verbatim>\<open>router\<close> look \<^verbatim>\<open>state["route"]\<close> up in the mapping given to
  \<^verbatim>\<open>add_conditional_edges\<close>; the other edges are fixed; \<^verbatim>\<open>END\<close> has no edge. \<open>None\<close>
  means that there is no next state.
\<close>

definition route_mapping :: "(string \<times> node) list" where
  "route_mapping = [(''rag'', Rag_tool), (''weather'', Weather_tool)]"

fun next_node :: "node \<Rightarrow> AgentState \<Rightarrow> node option" where
  "next_node Router state =
     (case route state of None \<Rightarrow> None | Some r \<Rightarrow> map_of route_mapping r)"
| "next_node Rag_tool state = Some Responder"
| "next_node Weather_tool state = Some Responder"
| "next_node Responder state = Some END"
| "next_node END state = None"

fun node_function :: "node \<Rightarrow> env \<Rightarrow> AgentState \<Rightarrow> event list \<Rightarrow> (error + update) \<times> event list" where
  "node_function Router = router_node"
| "node_function Rag_tool = rag_node"
| "node_function Weather_tool = weather_node"
| "node_function Responder = response_generator_node"
| "node_function END = (\<lambda>e state tr. (Inr no_update, tr))"

fun rank :: "node \<Rightarrow> nat" where
  "rank Router = 3"
| "rank Rag_tool = 2"
| "rank Weather_tool = 2"
| "rank Responder = 1"
| "rank END = 0"

text \<open>
  Running the compiled graph from a state of the graph: enter the state; at \<^verbatim>\<open>END\<close> return
  the state of the turn; otherwise run the node, write its update and follow the edge. An
  exception of a node, or a route outside the mapping, aborts the turn.
\<close>

function run_from :: "env \<Rightarrow> node \<Rightarrow> AgentState \<Rightarrow> event list \<Rightarrow> (error + AgentState) \<times> event list" where
  "run_from e n state tr =
     (if n = END then (Inr state, tr @ [Visit END])
      else (case node_function n e state (tr @ [Visit n]) of
              (Inl err, tr') \<Rightarrow> (Inl err, tr')
            | (Inr u, tr') \<Rightarrow>
                (case next_node n (apply_update state u) of
                   None \<Rightarrow> (Inl (KeyError ''route''), tr')
                 | Some n' \<Rightarrow> run_from e n' (apply_update state u) tr')))"
  by pat_completeness auto
termination
  by (relation "measure (\<lambda>(e, n, state, tr). rank n)")
     (auto simp: route_mapping_def split: option.splits if_splits elim!: next_node.elims)

declare run_from.simps [simp del]

text \<open>The graph states a trace enters, in order.\<close>

fun visits :: "event list \<Rightarrow> node list" where
  "visits [] = []"
| "visits (Visit n # tr) = n # visits tr"
| "visits (ev # tr) = visits tr"

text \<open>
  \<^verbatim>\<open>app.invoke(inputs)\<close> with \<^verbatim>\<open>inputs = {"messages": [...], "query": prompt}\<close>, as
  \<^verbatim>\<open>main.py\<close> calls it: the graph starts at its entry point \<^verbatim>\<open>router\<close>.
\<close>

definition initial_state :: "string \<Rightarrow> (string \<times> string) list \<Rightarrow> AgentState" where
  "initial_state q msgs =
     \<lparr>query = q, messages = msgs, response = None, sender = None, documents = None,
      weather_data = None, route = None\<rparr>"

definition app_invoke :: "env \<Rightarrow> string \<Rightarrow> (string \<times> string) list \<Rightarrow> (error + AgentState) \<times> event list" where
  "app_invoke e q msgs = run_from e Router (initial_state q msgs) []"

section \<open>The page ranges of the ingestion parser\<close>

text \<open>
  \<^verbatim>\<open>parse_iso14229_pdf\<close> of \<^verbatim>\<open>INGEST.py\<close>, step 1. The document is given by what
  \<^verbatim>\<open>re.findall\<close> finds on each of its pages, in page order: a match is the section number,
  the service name and the hexadecimal digits of the service identifier. An entry of
  \<^verbatim>\<open>service_index\<close> has no \<^verbatim>\<open>end\<close> key until the last loop writes it.
\<close>

type_synonym match = "string \<times> string \<times> string"

record service_entry =
  service_name :: string
  service_id :: string
  section_num :: string
  start :: nat
  end_page :: "nat option"

text \<open>
  \<^verbatim>\<open>d[k] = v\<close> on a dict, which keeps insertion order: a key that is present keeps its
  place and takes the new value, a new key goes to the end.
\<close>

fun dict_set :: "'k \<Rightarrow> 'v \<Rightarrow> ('k \<times> 'v) list \<Rightarrow> ('k \<times> 'v) list" where
  "dict_set k v [] = [(k, v)]"
| "dict_set k v ((k', v') # d) = (if k' = k then (k, v) # d else (k', v') # dict_set k v d)"

definition record_match :: "nat \<Rightarrow> match \<Rightarrow> (string \<times> service_entry) list \<Rightarrow> (string \<times> service_entry) list" where
  "record_match page_num m service_index =
     (case m of (sec, name, service_id_hex) \<Rightarrow>
        dict_set name
          \<lparr>service_name = name, service_id = ''0x'' @ service_id_hex, section_num = sec,
           start = page_num, end_page = None\<rparr>
          service_index)"

definition scan_pages :: "match list list \<Rightarrow> (string \<times> service_entry) list" where
  "scan_pages pages =
     fold (\<lambda>page_num service_index. fold (record_match page_num) (pages ! page_num) service_index)
       [0..<length pages] []"

text \<open>
  The loop \<^verbatim>\<open>for i in range(len(page_ranges))\<close> that writes the \<^verbatim>\<open>end\<close> of each range;
  \<open>n\<close> is \<^verbatim>\<open>len(doc)\<close>.
\<close>

definition set_end :: "nat \<Rightarrow> nat \<Rightarrow> service_entry list \<Rightarrow> service_entry list" where
  "set_end n i page_ranges =
     (if i + 1 < length page_ranges
      then page_ranges[i := (page_ranges ! i)\<lparr>end_page := Some (start (page_ranges ! (i + 1)))\<rparr>]
      else page_ranges[i := (page_ranges ! i)\<lparr>end_page := Some n\<rparr>])"

definition add_end_markers :: "nat \<Rightarrow> service_entry list \<Rightarrow> service_entry list" where
  "add_end_markers n page_ranges = fold (set_end n) [0..<length page_ranges] page_ranges"

definition page_ranges_of :: "match list list \<Rightarrow> service_entry list" where
  "page_ranges_of pages =
     (let service_index = scan_pages pages;
          page_ranges = map snd service_index;
          page_ranges = sort_key start page_ranges;
          page_ranges = take 5 page_ranges
      in add_end_markers (length pages) page_ranges)"

text \<open>The half-open range of pages \<^verbatim>\<open>range(info["start"], info["end"])\<close> of an entry.\<close>

definition pages_of :: "service_entry \<Rightarrow> nat set" where
  "pages_of r = (case end_page r of None \<Rightarrow> {} | Some en \<Rightarrow> {start r..<en})"

section \<open>Example collaborators\<close>

text \<open>
  Collaborators for the examples: a language model that always replies \<open>reply\<close>, a city
  extraction that raises or returns the \<^verbatim>\<open>WeatherInput\<close> \<open>extraction\<close>, a vector store that holds \<open>docs\<close> in similarity
  order and a weather service that answers every request with \<open>outcome\<close>.
\<close>

definition example_env :: "string \<Rightarrow> error + WeatherInput \<Rightarrow> Document list \<Rightarrow> http_outcome \<Rightarrow> env" where
  "example_env reply extraction docs outcome =
     \<lparr>environ = (\<lambda>k. if k = ''OPENWEATHERMAP_API_KEY'' then Some ''key'' else None),
      py_str = (\<lambda>j. ''{}''),
      llm_invoke = (\<lambda>prompt. Inr reply),
      structured_invoke = (\<lambda>q. map_sum id Some extraction),
      similarity_search = (\<lambda>q k. Inr (take k docs)),
      requests_get = (\<lambda>req. outcome)\<rparr>"

definition not_found :: http_outcome where
  "not_found = Response \<lparr>status_code = 404, http_error_text = ''404 Client Error'',
     json_body = Parsed (JObj [(''cod'', JStr ''404'')])\<rparr>"


definition haze :: json where
  "haze = JObj [(''main'', JObj [(''temp'', JInt 25)]),
                (''weather'', JArr [JObj [(''description'', JStr ''haze'')]])]"

text \<open>A response with status 200 whose body is not JSON (\<open>Inl\<close>) or parses (\<open>Inr\<close>).\<close>

definition ok_response :: "string + json \<Rightarrow> http_outcome" where
  "ok_response body =
     Response \<lparr>status_code = 200, http_error_text = [],
       json_body = (case body of Inl msg \<Rightarrow> JSONDecodeError msg | Inr j \<Rightarrow> Parsed j)\<rparr>"


definition dtc_chunk :: "nat \<Rightarrow> Document" where
  "dtc_chunk page =
     \<lparr>page_content = ''A DTC is a diagnostic trouble code.'',
      metadata = [(''service_name'', JStr ''ReadDTCInformation''), (''service_id'', JStr ''0x19''),
                  (''section'', JStr ''11.3''), (''page'', JInt (int page))]\<rparr>"

text \<open>
  A document of five pages for the examples: page 0 is an index that names two services,
  which are defined on pages 1 and 3.
\<close>

definition example_pages :: "match list list" where
  "example_pages =
     [[(''9.2'', ''DiagnosticSessionControl'', ''10''), (''9.3'', ''ECUReset'', ''11'')],
      [(''9.2'', ''DiagnosticSessionControl'', ''10'')],
      [],
      [(''9.3'', ''ECUReset'', ''11'')],
      []]"

section \<open>The router's decision\<close>

text \<open>The search of \<open>contains\<close> finds the needle exactly when the hay is some text, the
  needle, some text.\<close>

lemma starts_with_prefix: "starts_with needle hay \<longleftrightarrow> prefix needle hay"
  by (induction needle hay rule: starts_with.induct) simp_all

lemma contains_sublist: "contains needle hay \<longleftrightarrow> sublist needle hay"
proof (induction hay)
  case Nil
  show ?case by simp
next
  case (Cons h hs)
  then show ?case by (simp add: starts_with_prefix sublist_Cons_right)
qed

text \<open>
  Claim C1. Whatever text the language model returns to the router, the router strips and
  lowercases it; if the result contains \<open>weather\<close> as a substring the route is \<open>weather\<close>
  and the graph goes on to the weather tool; for every other text (empty, garbled,
  \<open>rag\<close>) the route is \<open>rag\<close> and the graph goes on to the retrieval tool. The route is
  always one of these two values.
\<close>

theorem router_node_route:
  assumes "llm_invoke e (router_prompt (query state)) = Inr raw"
  shows "\<exists>u. fst (router_node e state tr) = Inr u
           \<and> upd_route u = Some (if sublist ''weather'' (lower (strip raw)) then ''weather'' else ''rag'')
           \<and> upd_route u \<in> {Some ''weather'', Some ''rag''}
           \<and> next_node Router (apply_update state u) =
               Some (if sublist ''weather'' (lower (strip raw)) then Weather_tool else Rag_tool)"
  using assms
  by (simp add: router_node_def Let_def contains_sublist apply_update_def overwrite_def
        route_mapping_def no_update_def)

theorem router_node_route_witness:
  "llm_invoke (example_env '' The WEATHER tool  '' (Inr \<lparr>city = ''Bengaluru''\<rparr>) [] not_found)
      (router_prompt (query (initial_state ''how is the weather?'' []))) = Inr '' The WEATHER tool  ''
   \<and> (\<exists>u. fst (router_node (example_env '' The WEATHER tool  '' (Inr \<lparr>city = ''Bengaluru''\<rparr>) [] not_found)
                (initial_state ''how is the weather?'' []) []) = Inr u
          \<and> upd_route u = Some ''weather''
          \<and> next_node Router (apply_update (initial_state ''how is the weather?'' []) u) = Some Weather_tool)"
proof -
  let ?e = "example_env '' The WEATHER tool  '' (Inr \<lparr>city = ''Bengaluru''\<rparr>) [] not_found"
  let ?s = "initial_state ''how is the weather?'' []"
  have h: "llm_invoke ?e (router_prompt (query ?s)) = Inr '' The WEATHER tool  ''"
    by (simp add: example_env_def)
  have n: "sublist ''weather'' (lower (strip '' The WEATHER tool  ''))"
    by code_simp
  show ?thesis
    using h n router_node_route [OF h, of "[]"] by auto
qed

section \<open>The responder\<close>

lemma llm_response_trace: "snd (llm_response e prompt tr) = tr @ [LlmInvoke prompt]"
  by (simp add: llm_response_def split: sum.splits)

lemma llm_response_result:
  "fst (llm_response e prompt tr) = map_sum id agent_reply (llm_invoke e prompt)"
  by (simp add: llm_response_def split: sum.splits)

text \<open>
  Claim C2, as stated, fails where it says that a weather result that is present always
  leads to the weather summary: the responder tests the truth value of \<^verbatim>\<open>weather_data\<close>,
  and a payload that is present but empty (the service answered \<^verbatim>\<open>{}\<close>) takes the
  fallback branch, with no call of the language model.
\<close>

theorem responder_claimed_weather_branch_counterexample:
  "weather_data ((initial_state ''weather in Atlantis?'' [])\<lparr>weather_data := Some (JObj [])\<rparr>) \<noteq> None
   \<and> \<not> documents_truthy (documents ((initial_state ''weather in Atlantis?'' [])\<lparr>weather_data := Some (JObj [])\<rparr>))
   \<and> response_generator_node (example_env ''Sunny.'' (Inr \<lparr>city = ''Atlantis''\<rparr>) [] (ok_response (Inr (JObj []))))
        ((initial_state ''weather in Atlantis?'' [])\<lparr>weather_data := Some (JObj [])\<rparr>) []
      = (Inr (agent_reply fallback_response), [])"
  by (simp add: response_generator_node_def initial_state_def documents_truthy_def weather_truthy_def)

text \<open>
  Claim C2, amended. For every state, the responder takes exactly one of three branches,
  by priority. If \<^verbatim>\<open>documents\<close> is a non-empty list, it calls the language model once, with
  the prompt built from the documents joined by blank lines and the query, and the result
  does not depend on \<^verbatim>\<open>weather_data\<close>. Otherwise, if \<^verbatim>\<open>weather_data\<close> is set and its truth
  value is True (every error payload is such a value), it calls the language model once with
  the weather prompt. Otherwise it returns the fixed fallback text and calls nothing. The
  reply of the model is the response; an exception of the model leaves the node.
\<close>

theorem responder_branches:
  "(documents_truthy (documents state) \<longrightarrow>
      (\<exists>ds. documents state = Some ds \<and> ds \<noteq> []
         \<and> response_generator_node e state tr =
             (map_sum id agent_reply (llm_invoke e (rag_answer_prompt (join (nl @ nl) ds) (query state))),
              tr @ [LlmInvoke (rag_answer_prompt (join (nl @ nl) ds) (query state))]))
      \<and> response_generator_node e (state\<lparr>weather_data := w\<rparr>) tr = response_generator_node e state tr)
   \<and> (\<not> documents_truthy (documents state) \<and> weather_truthy (weather_data state) \<longrightarrow>
      (\<exists>j. weather_data state = Some j \<and> truthy j
         \<and> response_generator_node e state tr =
             (map_sum id agent_reply (llm_invoke e (weather_answer_prompt (query state) (py_str e j))),
              tr @ [LlmInvoke (weather_answer_prompt (query state) (py_str e j))])))
   \<and> (\<not> documents_truthy (documents state) \<and> \<not> weather_truthy (weather_data state) \<longrightarrow>
      response_generator_node e state tr = (Inr (agent_reply fallback_response), tr))
   \<and> weather_truthy (Some (error_payload msg))"
proof -
  have a: "documents_truthy (documents state) \<longrightarrow>
      (\<exists>ds. documents state = Some ds \<and> ds \<noteq> []
         \<and> response_generator_node e state tr =
             (map_sum id agent_reply (llm_invoke e (rag_answer_prompt (join (nl @ nl) ds) (query state))),
              tr @ [LlmInvoke (rag_answer_prompt (join (nl @ nl) ds) (query state))]))"
    by (cases "documents state")
       (simp_all add: documents_truthy_def response_generator_node_def Let_def prod_eq_iff
          llm_response_trace llm_response_result)
  have b: "documents_truthy (documents state) \<longrightarrow>
      response_generator_node e (state\<lparr>weather_data := w\<rparr>) tr = response_generator_node e state tr"
    by (simp add: response_generator_node_def)
  have c: "\<not> documents_truthy (documents state) \<and> weather_truthy (weather_data state) \<longrightarrow>
      (\<exists>j. weather_data state = Some j \<and> truthy j
         \<and> response_generator_node e state tr =
             (map_sum id agent_reply (llm_invoke e (weather_answer_prompt (query state) (py_str e j))),
              tr @ [LlmInvoke (weather_answer_prompt (query state) (py_str e j))]))"
    by (cases "weather_data state")
       (simp_all add: weather_truthy_def response_generator_node_def Let_def prod_eq_iff
          llm_response_trace llm_response_result)
  have d: "\<not> documents_truthy (documents state) \<and> \<not> weather_truthy (weather_data state) \<longrightarrow>
      response_generator_node e state tr = (Inr (agent_reply fallback_response), tr)"
    by (simp add: response_generator_node_def)
  have f: "weather_truthy (Some (error_payload msg))"
    by (simp add: weather_truthy_def error_payload_def)
  from a b c d f show ?thesis by blast
qed

theorem responder_branches_witness:
  "documents_truthy (documents ((initial_state ''what is a DTC?'' [])\<lparr>documents := Some [''a'', ''b''], weather_data := Some haze\<rparr>))
   \<and> response_generator_node (example_env ''A code.'' (Inr \<lparr>city = []\<rparr>) [] not_found)
        ((initial_state ''what is a DTC?'' [])\<lparr>documents := Some [''a'', ''b''], weather_data := Some haze\<rparr>) []
      = (Inr (agent_reply ''A code.''), [LlmInvoke (rag_answer_prompt (''a'' @ nl @ nl @ ''b'') ''what is a DTC?'')])
   \<and> \<not> documents_truthy (documents ((initial_state ''weather?'' [])\<lparr>weather_data := Some haze\<rparr>))
   \<and> weather_truthy (weather_data ((initial_state ''weather?'' [])\<lparr>weather_data := Some haze\<rparr>))
   \<and> response_generator_node (example_env ''Hazy.'' (Inr \<lparr>city = []\<rparr>) [] not_found)
        ((initial_state ''weather?'' [])\<lparr>weather_data := Some haze\<rparr>) []
      = (Inr (agent_reply ''Hazy.''), [LlmInvoke (weather_answer_prompt ''weather?'' ''{}'')])
   \<and> \<not> weather_truthy (weather_data (initial_state ''hello'' []))
   \<and> response_generator_node (example_env ''Hazy.'' (Inr \<lparr>city = []\<rparr>) [] not_found)
        (initial_state ''hello'' []) []
      = (Inr (agent_reply fallback_response), [])"
proof -
  let ?e = "example_env ''A code.'' (Inr \<lparr>city = []\<rparr>) [] not_found"
  let ?e' = "example_env ''Hazy.'' (Inr \<lparr>city = []\<rparr>) [] not_found"
  let ?s1 = "(initial_state ''what is a DTC?'' [])\<lparr>documents := Some [''a'', ''b''], weather_data := Some haze\<rparr>"
  let ?s2 = "(initial_state ''weather?'' [])\<lparr>weather_data := Some haze\<rparr>"
  let ?s3 = "initial_state ''hello'' []"
  have d1: "documents_truthy (documents ?s1)"
    by (simp add: documents_truthy_def)
  have d2: "\<not> documents_truthy (documents ?s2)" "weather_truthy (weather_data ?s2)"
    by (simp_all add: documents_truthy_def weather_truthy_def initial_state_def haze_def)
  have d3: "\<not> documents_truthy (documents ?s3)" "\<not> weather_truthy (weather_data ?s3)"
    by (simp_all add: documents_truthy_def weather_truthy_def initial_state_def)
  have r1: "response_generator_node ?e ?s1 []
      = (Inr (agent_reply ''A code.''), [LlmInvoke (rag_answer_prompt (''a'' @ nl @ nl @ ''b'') ''what is a DTC?'')])"
    using d1 responder_branches [of ?s1 ?e "[]" None "[]"]
    by (simp add: example_env_def initial_state_def)
  have r2: "response_generator_node ?e' ?s2 []
      = (Inr (agent_reply ''Hazy.''), [LlmInvoke (weather_answer_prompt ''weather?'' ''{}'')])"
    using d2 responder_branches [of ?s2 ?e' "[]" None "[]"]
    by (simp add: example_env_def initial_state_def)
  have r3: "response_generator_node ?e' ?s3 [] = (Inr (agent_reply fallback_response), [])"
    using d3 responder_branches [of ?s3 ?e' "[]" None "[]"]
    by simp
  from d1 d2 d3 r1 r2 r3 show ?thesis by simp
qed

section \<open>The weather tool\<close>

lemma fetch_weather_trace: "snd (fetch_weather e c tr) = tr @ [HttpGet (weather_request e c)]"
  by (simp add: fetch_weather_def Let_def split: http_outcome.splits json_outcome.splits)












section \<open>The retrieval tool\<close>

text \<open>
  Claim C7. The retrieval node makes one request to the vector store, for the query and
  K = 5 chunks, and stores the text of the chunks it gets in \<^verbatim>\<open>documents\<close>, one entry per
  chunk and in the order of the store: nothing is re-ranked, filtered or removed.
\<close>

theorem rag_node_top5_in_order:
  "snd (rag_node e state tr) = tr @ [RetrieverInvoke (query state) 5]
   \<and> (similarity_search e (query state) 5 = Inr docs \<longrightarrow>
        (\<exists>ds. fst (rag_node e state tr) =
                 Inr (no_update\<lparr>upd_documents := Some ds, upd_sender := Some ''RAG Tool''\<rparr>)
              \<and> length ds = length docs
              \<and> (\<forall>i<length docs. ds ! i = page_content (docs ! i))))"
proof -
  have t: "snd (rag_node e state tr) = tr @ [RetrieverInvoke (query state) 5]"
    by (simp add: rag_node_def retriever_def Let_def split: sum.splits)
  have d: "similarity_search e (query state) 5 = Inr docs \<longrightarrow>
        (\<exists>ds. fst (rag_node e state tr) =
                 Inr (no_update\<lparr>upd_documents := Some ds, upd_sender := Some ''RAG Tool''\<rparr>)
              \<and> length ds = length docs
              \<and> (\<forall>i<length docs. ds ! i = page_content (docs ! i)))"
  proof
    assume h: "similarity_search e (query state) 5 = Inr docs"
    have "fst (rag_node e state tr) =
            Inr (no_update\<lparr>upd_documents := Some (map page_content docs),
                           upd_sender := Some ''RAG Tool''\<rparr>)"
      using h by (simp add: rag_node_def retriever_def)
    moreover have "length (map page_content docs) = length docs" by simp
    moreover have "\<forall>i<length docs. map page_content docs ! i = page_content (docs ! i)" by simp
    ultimately show "\<exists>ds. fst (rag_node e state tr) =
                 Inr (no_update\<lparr>upd_documents := Some ds, upd_sender := Some ''RAG Tool''\<rparr>)
              \<and> length ds = length docs
              \<and> (\<forall>i<length docs. ds ! i = page_content (docs ! i))"
      by blast
  qed
  from t d show ?thesis by blast
qed

theorem rag_node_top5_in_order_witness:
  "similarity_search (example_env ''rag'' (Inr \<lparr>city = []\<rparr>)
       [\<lparr>page_content = ''b'', metadata = []\<rparr>, \<lparr>page_content = ''a'', metadata = []\<rparr>,
        \<lparr>page_content = ''b'', metadata = []\<rparr>] not_found)
     (query (initial_state ''what is a DTC?'' [])) 5
     = Inr [\<lparr>page_content = ''b'', metadata = []\<rparr>, \<lparr>page_content = ''a'', metadata = []\<rparr>,
            \<lparr>page_content = ''b'', metadata = []\<rparr>]
   \<and> rag_node (example_env ''rag'' (Inr \<lparr>city = []\<rparr>)
       [\<lparr>page_content = ''b'', metadata = []\<rparr>, \<lparr>page_content = ''a'', metadata = []\<rparr>,
        \<lparr>page_content = ''b'', metadata = []\<rparr>] not_found)
       (initial_state ''what is a DTC?'' []) []
     = (Inr (no_update\<lparr>upd_documents := Some [''b'', ''a'', ''b''], upd_sender := Some ''RAG Tool''\<rparr>),
        [RetrieverInvoke ''what is a DTC?'' 5])"
proof -
  let ?docs = "[\<lparr>page_content = ''b'', metadata = []\<rparr>, \<lparr>page_content = ''a'', metadata = []\<rparr>,
        \<lparr>page_content = ''b'', metadata = []\<rparr>]"
  let ?e = "example_env ''rag'' (Inr \<lparr>city = []\<rparr>) ?docs not_found"
  let ?s = "initial_state ''what is a DTC?'' []"
  have h: "similarity_search ?e (query ?s) 5 = Inr ?docs"
    by (simp add: example_env_def)
  obtain ds where ds: "fst (rag_node ?e ?s []) =
        Inr (no_update\<lparr>upd_documents := Some ds, upd_sender := Some ''RAG Tool''\<rparr>)"
      "length ds = 3" "\<forall>i<3. ds ! i = page_content (?docs ! i)"
    using rag_node_top5_in_order [of ?e ?s "[]" ?docs] h by auto
  have "ds = [''b'', ''a'', ''b'']"
    using ds(2,3) by (auto simp: list_eq_iff_nth_eq less_Suc_eq nth_Cons')
  moreover have "snd (rag_node ?e ?s []) = [RetrieverInvoke ''what is a DTC?'' 5]"
    using rag_node_top5_in_order [of ?e ?s "[]" ?docs] by (simp add: initial_state_def)
  ultimately show ?thesis using h ds(1) by (simp add: prod_eq_iff)
qed

text \<open>
  Claim C8, as stated, fails: the entries of \<^verbatim>\<open>documents\<close> do not carry the metadata of
  the chunks. Two chunks with the same text and different metadata (another page) give the
  same update.
\<close>

theorem rag_node_drops_metadata_counterexample:
  "metadata (dtc_chunk 1) \<noteq> metadata (dtc_chunk 2)
   \<and> fst (rag_node (example_env ''rag'' (Inr \<lparr>city = []\<rparr>) [dtc_chunk 1] not_found)
            (initial_state ''what is a DTC?'' []) [])
     = fst (rag_node (example_env ''rag'' (Inr \<lparr>city = []\<rparr>) [dtc_chunk 2] not_found)
            (initial_state ''what is a DTC?'' []) [])"
  by (simp add: rag_node_def retriever_def example_env_def dtc_chunk_def)

text \<open>
  Claim C8, amended. Each entry of \<^verbatim>\<open>documents\<close> is the text content of the chunk the store
  returned at that position, and nothing else: two results of the store with the same texts
  give the same update, whatever their metadata.
\<close>

theorem rag_node_text_only:
  assumes "similarity_search e (query state) 5 = Inr docs"
  shows "fst (rag_node e state tr) =
           Inr (no_update\<lparr>upd_documents := Some (map page_content docs),
                          upd_sender := Some ''RAG Tool''\<rparr>)
         \<and> (similarity_search e' (query state) 5 = Inr docs'
              \<and> map page_content docs' = map page_content docs \<longrightarrow>
            fst (rag_node e' state tr') = fst (rag_node e state tr))"
  using assms by (simp add: rag_node_def retriever_def)

theorem rag_node_text_only_witness:
  "similarity_search (example_env ''rag'' (Inr \<lparr>city = []\<rparr>) [dtc_chunk 1] not_found)
     (query (initial_state ''what is a DTC?'' [])) 5 = Inr [dtc_chunk 1]
   \<and> fst (rag_node (example_env ''rag'' (Inr \<lparr>city = []\<rparr>) [dtc_chunk 1] not_found)
            (initial_state ''what is a DTC?'' []) [])
     = Inr (no_update\<lparr>upd_documents := Some [''A DTC is a diagnostic trouble code.''],
                      upd_sender := Some ''RAG Tool''\<rparr>)"
proof -
  let ?e = "example_env ''rag'' (Inr \<lparr>city = []\<rparr>) [dtc_chunk 1] not_found"
  let ?s = "initial_state ''what is a DTC?'' []"
  have h: "similarity_search ?e (query ?s) 5 = Inr [dtc_chunk 1]"
    by (simp add: example_env_def)
  show ?thesis
    using h rag_node_text_only [OF h, of "[]" ?e "[dtc_chunk 1]" "[]"]
    by (simp add: dtc_chunk_def)
qed

section \<open>The graph is a single pass\<close>

text \<open>No node function enters a graph state: it only adds its own calls to the trace.\<close>

lemma visits_append: "visits (a @ b) = visits a @ visits b"
  by (induction a rule: visits.induct) simp_all

lemma router_node_trace:
  "snd (router_node e st tr) = tr @ [LlmInvoke (router_prompt (query st))]"
  by (simp add: router_node_def Let_def split: sum.splits)

lemma rag_node_trace: "snd (rag_node e st tr) = tr @ [RetrieverInvoke (query st) 5]"
  by (simp add: rag_node_def retriever_def Let_def split: sum.splits)

lemma weather_node_visits: "visits (snd (weather_node e st tr)) = visits tr"
proof -
  have f: "visits (snd (fetch_weather e c tr')) = visits tr'" for c tr'
    by (simp add: fetch_weather_trace visits_append)
  have g: "visits tr2 = visits tr'" if "fetch_weather e c tr' = (fr, tr2)" for c tr' fr tr2
    using f [of c tr'] that by simp
  show ?thesis
    by (auto simp: weather_node_def Let_def visits_append dest: g
          split: sum.splits option.splits prod.splits)
qed

lemma responder_visits: "visits (snd (response_generator_node e st tr)) = visits tr"
  by (simp add: response_generator_node_def Let_def llm_response_trace visits_append)

lemma node_function_visits: "visits (snd (node_function n e st tr)) = visits tr"
  by (cases n)
     (simp_all add: router_node_trace rag_node_trace weather_node_visits responder_visits
        visits_append)

lemma next_node_rank: "next_node n st = Some n' \<Longrightarrow> rank n' < rank n"
  by (cases n) (auto simp: route_mapping_def split: option.splits if_splits)

lemma run_from_visits:
  "\<exists>p. visits (snd (run_from e n st tr)) = visits tr @ n # p
       \<and> successively (\<lambda>a b. \<exists>s. next_node a s = Some b) (n # p)"
proof (induction e n st tr rule: run_from.induct)
  case (1 e n st tr)
  show ?case
  proof (cases "n = END")
    case True
    then show ?thesis by (simp add: run_from.simps [of e END] visits_append)
  next
    case False
    obtain res tr' where nf: "node_function n e st (tr @ [Visit n]) = (res, tr')"
      by (cases "node_function n e st (tr @ [Visit n])")
    have tr': "visits tr' = visits tr @ [n]"
      using node_function_visits [of n e st "tr @ [Visit n]"] nf by (simp add: visits_append)
    show ?thesis
    proof (cases res)
      case (Inl err)
      then show ?thesis using False nf tr' by (simp add: run_from.simps [of e n st tr])
    next
      case (Inr u)
      show ?thesis
      proof (cases "next_node n (apply_update st u)")
        case None
        then show ?thesis using False nf tr' Inr by (simp add: run_from.simps [of e n st tr])
      next
        case (Some n')
        from "1.IH" [OF False nf [symmetric] Inr Some]
        obtain p where p: "visits (snd (run_from e n' (apply_update st u) tr')) = visits tr' @ n' # p"
          "successively (\<lambda>a b. \<exists>s. next_node a s = Some b) (n' # p)"
          by blast
        have "successively (\<lambda>a b. \<exists>s. next_node a s = Some b) (n # n' # p)"
          using p(2) Some by auto
        then show ?thesis
          using False nf tr' Inr Some p(1) by (simp add: run_from.simps [of e n st tr])
      qed
    qed
  qed
qed


lemma rank_le_3: "rank n \<le> 3"
  by (cases n) simp_all

lemma path_distinct_short:
  assumes "successively (\<lambda>a b. \<exists>s. next_node a s = Some b) ns"
  shows "distinct ns \<and> length ns \<le> 4"
proof -
  have "successively (\<lambda>a b. rank b < rank a) ns"
    using assms by (rule successively_mono) (auto dest: next_node_rank)
  moreover have "transp (\<lambda>a b. rank b < rank a)"
    by (auto simp: transp_def)
  ultimately have sw: "sorted_wrt (\<lambda>a b. rank b < rank a) ns"
    by (simp add: successively_conv_sorted_wrt)
  then have "sorted_wrt (\<lambda>x y. y < x) (map rank ns)"
    by (simp add: sorted_wrt_map)
  then have "sorted_wrt (<) (rev (map rank ns))"
    by (simp add: sorted_wrt_rev)
  then have d: "distinct (map rank ns)"
    using strict_sorted_iff [of "rev (map rank ns)"] by simp
  then have dn: "distinct ns"
    by (simp add: distinct_map)
  have "set (map rank ns) \<subseteq> {0..3}"
    using rank_le_3 by auto
  then have "card (set (map rank ns)) \<le> card {0..3::nat}"
    by (intro card_mono) auto
  then have "length ns \<le> 4"
    using distinct_card [OF d] by simp
  with dn show ?thesis by simp
qed

lemma map_of_route_mapping:
  "map_of route_mapping r =
     (if r = ''rag'' then Some Rag_tool else if r = ''weather'' then Some Weather_tool else None)"
  by (simp add: route_mapping_def)

lemma next_node_Router:
  "next_node Router s = Some n' \<longleftrightarrow>
     (route s = Some ''rag'' \<and> n' = Rag_tool) \<or> (route s = Some ''weather'' \<and> n' = Weather_tool)"
proof (cases "route s")
  case None
  then show ?thesis by simp
next
  case (Some r)
  then show ?thesis by (simp add: map_of_route_mapping) blast
qed

lemma edges_iff:
  "(\<exists>s. next_node n s = Some n') \<longleftrightarrow>
     (n, n') \<in> {(Router, Rag_tool), (Router, Weather_tool), (Rag_tool, Responder),
                (Weather_tool, Responder), (Responder, END)}"
proof (cases n)
  case Router
  have r: "route ((initial_state [] [])\<lparr>route := Some ''rag''\<rparr>) = Some ''rag''"
    by simp
  have w: "route ((initial_state [] [])\<lparr>route := Some ''weather''\<rparr>) = Some ''weather''"
    by simp
  have "(\<exists>s. next_node Router s = Some n') \<longleftrightarrow> n' = Rag_tool \<or> n' = Weather_tool"
    unfolding next_node_Router using r w by blast
  with Router show ?thesis by simp
next
  case Rag_tool
  then show ?thesis by auto
next
  case Weather_tool
  then show ?thesis by auto
next
  case Responder
  then show ?thesis by auto
next
  case END
  then show ?thesis by simp
qed

lemma router_edges:
  "(next_node Router st = Some Rag_tool \<longleftrightarrow> route st = Some ''rag'')
   \<and> (next_node Router st = Some Weather_tool \<longleftrightarrow> route st = Some ''weather'')"
  unfolding next_node_Router by simp

text \<open>
  Claim C5. The edges of the graph are exactly: router to the retrieval tool when the
  route is \<open>rag\<close>, router to the weather tool when the route is \<open>weather\<close>, each tool to
  the responder, the responder to \<^verbatim>\<open>END\<close>; \<^verbatim>\<open>END\<close> has no edge. So every path along the
  edges visits no state twice and has at most four states, and every run of the graph from
  the router enters the router and then at most three further states, along the edges, none
  of them twice.
\<close>

theorem graph_single_pass:
  "((\<exists>s. next_node n s = Some n') \<longleftrightarrow>
      (n, n') \<in> {(Router, Rag_tool), (Router, Weather_tool), (Rag_tool, Responder),
                 (Weather_tool, Responder), (Responder, END)})
   \<and> (next_node Router state = Some Rag_tool \<longleftrightarrow> route state = Some ''rag'')
   \<and> (next_node Router state = Some Weather_tool \<longleftrightarrow> route state = Some ''weather'')
   \<and> next_node Rag_tool state = Some Responder
   \<and> next_node Weather_tool state = Some Responder
   \<and> next_node Responder state = Some END
   \<and> next_node END state = None
   \<and> (successively (\<lambda>a b. \<exists>s. next_node a s = Some b) ns \<longrightarrow> distinct ns \<and> length ns \<le> 4)
   \<and> (\<exists>p. visits (snd (run_from e Router state [])) = Router # p
          \<and> successively (\<lambda>a b. \<exists>s. next_node a s = Some b) (Router # p)
          \<and> distinct (Router # p) \<and> length p \<le> 3)"
proof -
  obtain p where p: "visits (snd (run_from e Router state [])) = Router # p"
      "successively (\<lambda>a b. \<exists>s. next_node a s = Some b) (Router # p)"
    using run_from_visits [of e Router state "[]"] by auto
  have "distinct (Router # p) \<and> length (Router # p) \<le> 4"
    using p(2) by (rule path_distinct_short)
  then have run: "\<exists>p. visits (snd (run_from e Router state [])) = Router # p
          \<and> successively (\<lambda>a b. \<exists>s. next_node a s = Some b) (Router # p)
          \<and> distinct (Router # p) \<and> length p \<le> 3"
    using p by auto
  have path: "successively (\<lambda>a b. \<exists>s. next_node a s = Some b) ns \<longrightarrow> distinct ns \<and> length ns \<le> 4"
    using path_distinct_short by blast
  show ?thesis
    using edges_iff [of n n'] router_edges [of state] path run by simp
qed


theorem graph_single_pass_witness:
  "successively (\<lambda>a b. \<exists>s. next_node a s = Some b) [Router, Weather_tool, Responder, END]
   \<and> distinct [Router, Weather_tool, Responder, END]
   \<and> length [Router, Weather_tool, Responder, END] \<le> 4
   \<and> route ((initial_state ''q'' [])\<lparr>route := Some ''weather''\<rparr>) = Some ''weather''
   \<and> next_node Router ((initial_state ''q'' [])\<lparr>route := Some ''weather''\<rparr>) = Some Weather_tool"
proof -
  let ?E = "\<lambda>a b. \<exists>s. next_node a s = Some b"
  let ?st = "(initial_state ''q'' [])\<lparr>route := Some ''weather''\<rparr>"
  have r: "route ?st = Some ''weather''"
    by simp
  have n: "next_node Router ?st = Some Weather_tool"
    using r graph_single_pass [where state = ?st] by blast
  have e1: "?E Router Weather_tool"
    using graph_single_pass [where n = Router and n' = Weather_tool] by blast
  have e2: "?E Weather_tool Responder"
    using graph_single_pass [where n = Weather_tool and n' = Responder] by blast
  have e3: "?E Responder END"
    using graph_single_pass [where n = Responder and n' = END] by blast
  have s: "successively ?E [Router, Weather_tool, Responder, END]"
    using e1 e2 e3 by simp
  have "distinct [Router, Weather_tool, Responder, END]
      \<and> length [Router, Weather_tool, Responder, END] \<le> 4"
    using s graph_single_pass [where ns = "[Router, Weather_tool, Responder, END]"] by blast
  with s r n show ?thesis by blast
qed

section \<open>The state of a completed turn\<close>

lemma run_from_END: "run_from e END st tr = (Inr st, tr @ [Visit END])"
  by (simp add: run_from.simps [of e END])

lemma run_from_step:
  assumes "n \<noteq> END" and "node_function n e st (tr @ [Visit n]) = (Inr u, tr')"
    and "next_node n (apply_update st u) = Some n'"
  shows "run_from e n st tr = run_from e n' (apply_update st u) tr'"
  using assms by (simp add: run_from.simps [of e n st tr])

lemma run_from_Inr:
  assumes "fst (run_from e n st tr) = Inr s'" and "n \<noteq> END"
  shows "\<exists>u tr' n'. node_function n e st (tr @ [Visit n]) = (Inr u, tr')
           \<and> next_node n (apply_update st u) = Some n'
           \<and> fst (run_from e n' (apply_update st u) tr') = Inr s'"
proof -
  obtain res tr' where nf: "node_function n e st (tr @ [Visit n]) = (res, tr')"
    by (cases "node_function n e st (tr @ [Visit n])")
  show ?thesis
  proof (cases res)
    case (Inl err)
    with assms nf show ?thesis by (simp add: run_from.simps [of e n st tr])
  next
    case (Inr u)
    show ?thesis
    proof (cases "next_node n (apply_update st u)")
      case None
      with assms nf Inr show ?thesis by (simp add: run_from.simps [of e n st tr])
    next
      case (Some n')
      with assms nf Inr show ?thesis by (simp add: run_from.simps [of e n st tr])
    qed
  qed
qed

lemma router_node_Inr:
  assumes "router_node e s tr = (Inr u, tr')"
  shows "u = no_update\<lparr>upd_route := Some ''weather''\<rparr> \<or> u = no_update\<lparr>upd_route := Some ''rag''\<rparr>"
  using assms by (auto simp: router_node_def Let_def split: sum.splits if_splits)

lemma rag_node_Inr:
  assumes "rag_node e s tr = (Inr u, tr')"
  shows "\<exists>ds. u = no_update\<lparr>upd_documents := Some ds, upd_sender := Some ''RAG Tool''\<rparr>"
  using assms by (auto simp: rag_node_def retriever_def Let_def split: sum.splits)

lemma weather_node_Inr:
  assumes "weather_node e s tr = (Inr u, tr')"
  shows "\<exists>j. u = no_update\<lparr>upd_weather_data := Some j, upd_sender := Some ''Weather Tool''\<rparr>"
  using assms
  by (auto simp: weather_node_def Let_def split: sum.splits option.splits prod.splits if_splits)

lemma responder_Inr:
  assumes "response_generator_node e s tr = (Inr u, tr')"
  shows "\<exists>r. u = agent_reply r
           \<and> (\<not> documents_truthy (documents s) \<and> \<not> weather_truthy (weather_data s)
                \<longrightarrow> r = fallback_response)
           \<and> (documents_truthy (documents s) \<or> weather_truthy (weather_data s)
                \<longrightarrow> (\<exists>prompt. llm_invoke e prompt = Inr r))"
  using assms
  by (auto simp: response_generator_node_def Let_def llm_response_def split: sum.splits if_splits)


lemma responder_run:
  assumes "fst (run_from e Responder s2 tr) = Inr s'"
  shows "\<exists>r. s' = apply_update s2 (agent_reply r)
           \<and> (\<not> documents_truthy (documents s2) \<and> \<not> weather_truthy (weather_data s2)
                \<longrightarrow> r = fallback_response)
           \<and> (documents_truthy (documents s2) \<or> weather_truthy (weather_data s2)
                \<longrightarrow> (\<exists>prompt. llm_invoke e prompt = Inr r))"
proof -
  from run_from_Inr [OF assms] obtain u tr' n' where
    nf: "response_generator_node e s2 (tr @ [Visit Responder]) = (Inr u, tr')"
    and nx: "next_node Responder (apply_update s2 u) = Some n'"
    and rest: "fst (run_from e n' (apply_update s2 u) tr') = Inr s'"
    by auto
  from nx have "n' = END" by simp
  with rest have "s' = apply_update s2 u" by (simp add: run_from_END)
  with responder_Inr [OF nf] show ?thesis by blast
qed

lemma tool_run:
  assumes "fst (run_from e n s1 tr) = Inr s'" and "n = Rag_tool \<or> n = Weather_tool"
  shows "\<exists>u tr'. node_function n e s1 (tr @ [Visit n]) = (Inr u, tr')
           \<and> fst (run_from e Responder (apply_update s1 u) tr') = Inr s'"
proof -
  from assms(2) have ne: "n \<noteq> END" by auto
  from run_from_Inr [OF assms(1) ne] obtain u tr' n' where
    nf: "node_function n e s1 (tr @ [Visit n]) = (Inr u, tr')"
    and nx: "next_node n (apply_update s1 u) = Some n'"
    and rest: "fst (run_from e n' (apply_update s1 u) tr') = Inr s'"
    by auto
  from nx assms(2) have "n' = Responder" by auto
  with nf rest show ?thesis by blast
qed

text \<open>
  Claim C6, as stated, fails where it says that the response of a completed turn is never
  empty: in the two branches that call the language model, the response is the reply of the
  model as it is, and a model that replies with the empty string gives an empty response.
  Here the turn takes the retrieval route, the store returns one chunk, and the response is
  empty.
\<close>

theorem empty_reply_counterexample:
  "map_sum id (\<lambda>s. (response s, documents s, weather_data s))
     (fst (app_invoke (example_env [] (Inr \<lparr>city = []\<rparr>) [dtc_chunk 1] not_found) ''what is a DTC?'' []))
   = Inr (Some [], Some [''A DTC is a diagnostic trouble code.''], None)"
  by code_simp

text \<open>
  Claim C6, amended. For every completed turn that \<^verbatim>\<open>app.invoke\<close> starts from a query and
  messages only, exactly one of \<^verbatim>\<open>documents\<close> and \<^verbatim>\<open>weather_data\<close> is set in the final
  state: \<^verbatim>\<open>documents\<close> on the route \<open>rag\<close>, \<^verbatim>\<open>weather_data\<close> on the route \<open>weather\<close>.
  The response is set; when the fallback branch executes it is the fixed fallback text,
  which is not empty; in the other two branches it is a reply of the language model.
\<close>

theorem completed_turn_state:
  assumes "fst (app_invoke e q msgs) = Inr s'"
  shows "((documents s' = None) \<noteq> (weather_data s' = None))
       \<and> (route s' = Some ''rag'' \<longleftrightarrow> documents s' \<noteq> None)
       \<and> (route s' = Some ''weather'' \<longleftrightarrow> weather_data s' \<noteq> None)
       \<and> (\<exists>r. response s' = Some r
             \<and> (\<not> documents_truthy (documents s') \<and> \<not> weather_truthy (weather_data s')
                  \<longrightarrow> r = fallback_response)
             \<and> (documents_truthy (documents s') \<or> weather_truthy (weather_data s')
                  \<longrightarrow> (\<exists>prompt. llm_invoke e prompt = Inr r)))
       \<and> fallback_response \<noteq> []"
proof -
  let ?s0 = "initial_state q msgs"
  have run: "fst (run_from e Router ?s0 []) = Inr s'"
    using assms by (simp add: app_invoke_def)
  have "Router \<noteq> END" by simp
  from run_from_Inr [OF run this] obtain u1 tr1 n1 where
    nf1: "router_node e ?s0 [Visit Router] = (Inr u1, tr1)"
    and nx1: "next_node Router (apply_update ?s0 u1) = Some n1"
    and rest1: "fst (run_from e n1 (apply_update ?s0 u1) tr1) = Inr s'"
    by auto
  have fb: "fallback_response \<noteq> []"
    by (simp add: fallback_response_def)
  from router_node_Inr [OF nf1] show ?thesis
  proof
    assume u1: "u1 = no_update\<lparr>upd_route := Some ''weather''\<rparr>"
    let ?s1 = "apply_update ?s0 u1"
    have n1: "n1 = Weather_tool"
      using nx1 u1 by (simp add: apply_update_def overwrite_def no_update_def route_mapping_def)
    from tool_run [OF rest1] n1 obtain u2 tr2 where
      nf2: "weather_node e ?s1 (tr1 @ [Visit Weather_tool]) = (Inr u2, tr2)"
      and rest2: "fst (run_from e Responder (apply_update ?s1 u2) tr2) = Inr s'"
      by auto
    from weather_node_Inr [OF nf2] obtain j where
      u2: "u2 = no_update\<lparr>upd_weather_data := Some j, upd_sender := Some ''Weather Tool''\<rparr>"
      by blast
    let ?s2 = "apply_update ?s1 u2"
    from responder_run [OF rest2] obtain r where
      s': "s' = apply_update ?s2 (agent_reply r)"
      and f: "\<not> documents_truthy (documents ?s2) \<and> \<not> weather_truthy (weather_data ?s2)
                \<longrightarrow> r = fallback_response"
      and l: "documents_truthy (documents ?s2) \<or> weather_truthy (weather_data ?s2)
                \<longrightarrow> (\<exists>prompt. llm_invoke e prompt = Inr r)"
      by blast
    have d: "documents s' = None" "documents ?s2 = None"
      by (simp_all add: s' u1 u2 apply_update_def overwrite_def no_update_def agent_reply_def
            initial_state_def)
    have w: "weather_data s' = Some j" "weather_data ?s2 = Some j"
      by (simp_all add: s' u1 u2 apply_update_def overwrite_def no_update_def agent_reply_def
            initial_state_def)
    have ro: "route s' = Some ''weather''"
      by (simp add: s' u1 u2 apply_update_def overwrite_def no_update_def agent_reply_def
            initial_state_def)
    have re: "response s' = Some r"
      by (simp add: s' apply_update_def overwrite_def no_update_def agent_reply_def)
    from d w ro re f l fb show ?thesis by simp
  next
    assume u1: "u1 = no_update\<lparr>upd_route := Some ''rag''\<rparr>"
    let ?s1 = "apply_update ?s0 u1"
    have n1: "n1 = Rag_tool"
      using nx1 u1 by (simp add: apply_update_def overwrite_def no_update_def route_mapping_def)
    from tool_run [OF rest1] n1 obtain u2 tr2 where
      nf2: "rag_node e ?s1 (tr1 @ [Visit Rag_tool]) = (Inr u2, tr2)"
      and rest2: "fst (run_from e Responder (apply_update ?s1 u2) tr2) = Inr s'"
      by auto
    from rag_node_Inr [OF nf2] obtain ds where
      u2: "u2 = no_update\<lparr>upd_documents := Some ds, upd_sender := Some ''RAG Tool''\<rparr>"
      by blast
    let ?s2 = "apply_update ?s1 u2"
    from responder_run [OF rest2] obtain r where
      s': "s' = apply_update ?s2 (agent_reply r)"
      and f: "\<not> documents_truthy (documents ?s2) \<and> \<not> weather_truthy (weather_data ?s2)
                \<longrightarrow> r = fallback_response"
      and l: "documents_truthy (documents ?s2) \<or> weather_truthy (weather_data ?s2)
                \<longrightarrow> (\<exists>prompt. llm_invoke e prompt = Inr r)"
      by blast
    have d: "documents s' = Some ds" "documents ?s2 = Some ds"
      by (simp_all add: s' u1 u2 apply_update_def overwrite_def no_update_def agent_reply_def
            initial_state_def)
    have w: "weather_data s' = None" "weather_data ?s2 = None"
      by (simp_all add: s' u1 u2 apply_update_def overwrite_def no_update_def agent_reply_def
            initial_state_def)
    have ro: "route s' = Some ''rag''"
      by (simp add: s' u1 u2 apply_update_def overwrite_def no_update_def agent_reply_def
            initial_state_def)
    have re: "response s' = Some r"
      by (simp add: s' apply_update_def overwrite_def no_update_def agent_reply_def)
    from d w ro re f l fb show ?thesis by simp
  qed
qed

lemma weather_turn:
  "fst (app_invoke (example_env ''weather'' (Inr \<lparr>city = ''Atlantis''\<rparr>) [] not_found)
          ''weather in Atlantis?'' [])
   = Inr \<lparr>query = ''weather in Atlantis?'', messages = [], response = Some ''weather'',
          sender = Some ''Agent'', documents = None,
          weather_data = Some (JObj [(''error'', JStr (''City '' @ sq @ ''Atlantis'' @ sq @ '' not found.''))]),
          route = Some ''weather''\<rparr>"
  by code_simp

theorem completed_turn_state_witness:
  "fst (app_invoke (example_env ''weather'' (Inr \<lparr>city = ''Atlantis''\<rparr>) [] not_found)
          ''weather in Atlantis?'' [])
   = Inr \<lparr>query = ''weather in Atlantis?'', messages = [], response = Some ''weather'',
          sender = Some ''Agent'', documents = None,
          weather_data = Some (JObj [(''error'', JStr (''City '' @ sq @ ''Atlantis'' @ sq @ '' not found.''))]),
          route = Some ''weather''\<rparr>
   \<and> (\<exists>prompt. llm_invoke (example_env ''weather'' (Inr \<lparr>city = ''Atlantis''\<rparr>) [] not_found) prompt
         = Inr ''weather'')"
  using weather_turn completed_turn_state [OF weather_turn]
  by (simp add: weather_truthy_def)

section \<open>The page ranges of the ingestion parser\<close>

text \<open>The loop over the indices writes the end of every range and nothing else.\<close>

lemma set_end_alt:
  "set_end n i rs =
     rs[i := (rs ! i)\<lparr>end_page := Some (if i + 1 < length rs then start (rs ! (i + 1)) else n)\<rparr>]"
  by (simp add: set_end_def)

lemma fold_set_end:
  assumes "k \<le> length rs"
  shows "length (fold (set_end n) [0..<k] rs) = length rs
       \<and> (\<forall>i<length rs. fold (set_end n) [0..<k] rs ! i =
            (if i < k
             then (rs ! i)\<lparr>end_page := Some (if i + 1 < length rs then start (rs ! (i + 1)) else n)\<rparr>
             else rs ! i))"
  using assms
proof (induction k)
  case 0
  show ?case by simp
next
  case (Suc k)
  let ?xs = "fold (set_end n) [0..<k] rs"
  from Suc have len: "length ?xs = length rs"
    and nth: "\<And>i. i < length rs \<Longrightarrow> ?xs ! i =
            (if i < k
             then (rs ! i)\<lparr>end_page := Some (if i + 1 < length rs then start (rs ! (i + 1)) else n)\<rparr>
             else rs ! i)"
    and k: "k < length rs"
    by auto
  have step: "fold (set_end n) [0..<Suc k] rs = set_end n k ?xs"
    by simp
  have xk: "?xs ! k = rs ! k"
    using nth [OF k] by simp
  have xk1: "k + 1 < length rs \<Longrightarrow> ?xs ! (k + 1) = rs ! (k + 1)"
    using nth [of "k + 1"] by simp
  have new: "set_end n k ?xs =
      ?xs[k := (rs ! k)\<lparr>end_page := Some (if k + 1 < length rs then start (rs ! (k + 1)) else n)\<rparr>]"
    using xk xk1 len by (simp add: set_end_alt)
  show ?case
    unfolding step new using len nth by (auto simp: nth_list_update less_Suc_eq)
qed

lemma length_add_end_markers: "length (add_end_markers n rs) = length rs"
  using fold_set_end [of "length rs" rs n] by (simp add: add_end_markers_def)

lemma add_end_markers_nth:
  assumes "i < length rs"
  shows "add_end_markers n rs ! i =
           (rs ! i)\<lparr>end_page := Some (if i + 1 < length rs then start (rs ! (i + 1)) else n)\<rparr>"
  using fold_set_end [of "length rs" rs n] assms by (simp add: add_end_markers_def)

lemma start_add_end_markers: "map start (add_end_markers n rs) = map start rs"
  by (rule nth_equalityI) (simp_all add: length_add_end_markers add_end_markers_nth)

lemma dict_set_mem:
  "kv \<in> set (dict_set k v d) \<Longrightarrow> snd kv = v \<or> kv \<in> set d"
  by (induction d) (auto split: if_splits)

lemma dict_set_all:
  assumes "\<forall>kv \<in> set d. P (snd kv)" and "P v"
  shows "\<forall>kv \<in> set (dict_set k v d). P (snd kv)"
  using assms dict_set_mem [of _ k v d] by metis

lemma record_match_bound:
  assumes "\<forall>kv \<in> set idx. start (snd kv) < N" and "p < N"
  shows "\<forall>kv \<in> set (record_match p m idx). start (snd kv) < N"
proof -
  obtain sec name hex where m: "m = (sec, name, hex)" by (cases m)
  show ?thesis
    unfolding record_match_def m prod.case
    by (rule dict_set_all [OF assms(1)]) (simp add: assms(2))
qed

lemma fold_record_match_bound:
  assumes "\<forall>kv \<in> set idx. start (snd kv) < N" and "p < N"
  shows "\<forall>kv \<in> set (fold (record_match p) ms idx). start (snd kv) < N"
  using assms(1)
proof (induction ms arbitrary: idx)
  case Nil
  then show ?case by simp
next
  case (Cons m ms)
  from record_match_bound [OF Cons.prems assms(2)]
  have "\<forall>kv \<in> set (record_match p m idx). start (snd kv) < N" .
  from Cons.IH [OF this] show ?case by simp
qed

lemma scan_bound:
  assumes "k \<le> length pages"
  shows "\<forall>kv \<in> set (fold (\<lambda>page_num service_index.
            fold (record_match page_num) (pages ! page_num) service_index) [0..<k] []).
          start (snd kv) < length pages"
  using assms
proof (induction k)
  case 0
  show ?case by simp
next
  case (Suc k)
  then have "\<forall>kv \<in> set (fold (\<lambda>page_num service_index.
            fold (record_match page_num) (pages ! page_num) service_index) [0..<k] []).
          start (snd kv) < length pages" and "k < length pages"
    by simp_all
  from fold_record_match_bound [OF this] show ?case by simp
qed

lemma scan_pages_bound: "\<forall>v \<in> set (map snd (scan_pages pages)). start v < length pages"
  using scan_bound [of "length pages" pages] by (simp add: scan_pages_def)

text \<open>The ranges before the loop writes their ends.\<close>

lemma ranges_before_ends:
  "length (take 5 (sort_key start (map snd (scan_pages pages)))) \<le> 5
   \<and> sorted (map start (take 5 (sort_key start (map snd (scan_pages pages)))))
   \<and> (\<forall>v \<in> set (take 5 (sort_key start (map snd (scan_pages pages)))). start v < length pages)"
proof -
  let ?xs = "sort_key start (map snd (scan_pages pages))"
  have "sorted (take 5 (map start ?xs))"
    using sorted_sort_key [of start "map snd (scan_pages pages)"] by (rule sorted_wrt_take)
  then have s: "sorted (map start (take 5 ?xs))"
    by (simp add: take_map)
  have "set (take 5 ?xs) \<subseteq> set (map snd (scan_pages pages))"
    using set_take_subset [of 5 ?xs] by simp
  with scan_pages_bound [of pages]
  have b: "\<forall>v \<in> set (take 5 ?xs). start v < length pages"
    by blast
  from s b show ?thesis by simp
qed

text \<open>
  Claim C10. For every document, the page ranges the parser computes are sorted by start
  page, are at most five, and are contiguous: the end of each range is the start of the
  next one, and the end of the last range is the number of pages of the document. Every
  range starts no later than it ends, inside the document, and two ranges never share a
  page.
\<close>

theorem page_ranges_contiguous:
  "sorted (map start (page_ranges_of pages))
   \<and> length (page_ranges_of pages) \<le> 5
   \<and> (\<forall>i. Suc i < length (page_ranges_of pages) \<longrightarrow>
         end_page (page_ranges_of pages ! i) = Some (start (page_ranges_of pages ! Suc i)))
   \<and> (page_ranges_of pages \<noteq> [] \<longrightarrow>
         end_page (last (page_ranges_of pages)) = Some (length pages))
   \<and> (\<forall>r \<in> set (page_ranges_of pages).
         \<exists>en. end_page r = Some en \<and> start r \<le> en \<and> en \<le> length pages)
   \<and> (\<forall>i j. i < j \<and> j < length (page_ranges_of pages) \<longrightarrow>
         pages_of (page_ranges_of pages ! i) \<inter> pages_of (page_ranges_of pages ! j) = {})"
proof -
  let ?n = "length pages"
  define pre where "pre = take 5 (sort_key start (map snd (scan_pages pages)))"
  define rs where "rs = page_ranges_of pages"
  have rs: "rs = add_end_markers ?n pre"
    by (simp add: rs_def pre_def page_ranges_of_def)
  have len: "length rs = length pre"
    by (simp add: rs length_add_end_markers)
  from ranges_before_ends [of pages] have len0: "length pre \<le> 5"
    and sorted0: "sorted (map start pre)"
    and bound0: "\<forall>v \<in> set pre. start v < ?n"
    unfolding pre_def by blast+
  have starts: "map start rs = map start pre"
    by (simp add: rs start_add_end_markers)
  have start_nth: "start (rs ! i) = start (pre ! i)" if "i < length pre" for i
    using that arg_cong [OF starts, of "\<lambda>xs. xs ! i"] len by simp
  have end_nth: "end_page (rs ! i) =
      Some (if i + 1 < length pre then start (pre ! (i + 1)) else ?n)" if "i < length pre" for i
    using that by (simp add: rs add_end_markers_nth)
  have mono: "start (pre ! i) \<le> start (pre ! j)" if "i \<le> j" "j < length pre" for i j
    using sorted_nth_mono [OF sorted0, of i j] that by simp
  have a: "sorted (map start rs)"
    using starts sorted0 by simp
  have b: "length rs \<le> 5"
    using len len0 by simp
  have c: "\<forall>i. Suc i < length rs \<longrightarrow> end_page (rs ! i) = Some (start (rs ! Suc i))"
    using len end_nth start_nth by simp
  have d: "rs \<noteq> [] \<longrightarrow> end_page (last rs) = Some ?n"
  proof
    assume ne: "rs \<noteq> []"
    then have lt: "length pre - 1 < length pre"
      using len by (cases pre) simp_all
    then have last: "\<not> (length pre - 1 + 1 < length pre)"
      by arith
    have "end_page (rs ! (length pre - 1)) = Some ?n"
      using end_nth [OF lt] last by (simp only: if_False)
    then show "end_page (last rs) = Some ?n"
      using ne len by (simp add: last_conv_nth)
  qed
  have ends: "\<exists>en. end_page (rs ! i) = Some en \<and> start (rs ! i) \<le> en \<and> en \<le> ?n"
    if i: "i < length pre" for i
  proof (cases "i + 1 < length pre")
    case True
    have "start (pre ! (i + 1)) < ?n"
      using bound0 True by (simp add: nth_mem)
    moreover have "start (pre ! i) \<le> start (pre ! (i + 1))"
      using mono [of i "i + 1"] True by simp
    ultimately show ?thesis
      using end_nth [OF i] start_nth [OF i] True by simp
  next
    case False
    have "start (pre ! i) < ?n"
      using bound0 i by (simp add: nth_mem)
    then show ?thesis
      using end_nth [OF i] start_nth [OF i] False by simp
  qed
  have e: "\<forall>r \<in> set rs. \<exists>en. end_page r = Some en \<and> start r \<le> en \<and> en \<le> ?n"
    using ends len by (auto simp: in_set_conv_nth)
  have f: "\<forall>i j. i < j \<and> j < length rs \<longrightarrow> pages_of (rs ! i) \<inter> pages_of (rs ! j) = {}"
  proof (intro allI impI)
    fix i j
    assume ij: "i < j \<and> j < length rs"
    then have i1: "i + 1 < length pre" and i: "i < length pre" and j: "j < length pre"
      using len by simp_all
    have ei: "end_page (rs ! i) = Some (start (pre ! (i + 1)))"
      using end_nth [OF i] i1 by simp
    have le: "start (pre ! (i + 1)) \<le> start (pre ! j)"
      using mono [of "i + 1" j] ij j by simp
    obtain en where ej: "end_page (rs ! j) = Some en"
      using ends [OF j] by blast
    show "pages_of (rs ! i) \<inter> pages_of (rs ! j) = {}"
      using ei ej le start_nth [OF j] by (auto simp: pages_of_def)
  qed
  from a b c d e f show ?thesis unfolding rs_def by blast
qed


lemma example_ranges:
  "page_ranges_of example_pages =
     [\<lparr>service_name = ''DiagnosticSessionControl'', service_id = ''0x10'', section_num = ''9.2'',
       start = 1, end_page = Some 3\<rparr>,
      \<lparr>service_name = ''ECUReset'', service_id = ''0x11'', section_num = ''9.3'',
       start = 3, end_page = Some 5\<rparr>]"
  by code_simp

theorem page_ranges_contiguous_witness:
  "Suc 0 < length (page_ranges_of example_pages)
   \<and> end_page (page_ranges_of example_pages ! 0) = Some (start (page_ranges_of example_pages ! Suc 0))
   \<and> page_ranges_of example_pages \<noteq> []
   \<and> end_page (last (page_ranges_of example_pages)) = Some (length example_pages)
   \<and> pages_of (page_ranges_of example_pages ! 0) \<inter> pages_of (page_ranges_of example_pages ! 1) = {}
   \<and> map start (page_ranges_of example_pages) = [1, 3]
   \<and> map end_page (page_ranges_of example_pages) = [Some 3, Some 5]"
proof -
  have h: "Suc 0 < length (page_ranges_of example_pages)"
    by (simp add: example_ranges)
  have ne: "page_ranges_of example_pages \<noteq> []"
    by (simp add: example_ranges)
  have lt: "(0::nat) < 1 \<and> 1 < length (page_ranges_of example_pages)"
    by (simp add: example_ranges)
  note t = page_ranges_contiguous [of example_pages]
  from t h have a: "end_page (page_ranges_of example_pages ! 0)
      = Some (start (page_ranges_of example_pages ! Suc 0))"
    by blast
  from t ne have b: "end_page (last (page_ranges_of example_pages)) = Some (length example_pages)"
    by blast
  from t lt have c: "pages_of (page_ranges_of example_pages ! 0)
      \<inter> pages_of (page_ranges_of example_pages ! 1) = {}"
    by blast
  have d: "map start (page_ranges_of example_pages) = [1, 3]"
    "map end_page (page_ranges_of example_pages) = [Some 3, Some 5]"
    by (simp_all add: example_ranges)
  from h ne a b c d show ?thesis by blast
qed

end
